theory Spec2Isabelle
  imports Main
begin

section \<open>The offline cache controller of \<open>service-worker.js\<close>\<close>

text \<open>
  The worker is three event listeners over the browser's Cache Storage and network.
  The listeners are embedded as they are written; the browser operations they call
  (\<open>caches.open\<close>, \<open>cache.addAll\<close>, \<open>caches.match\<close>, \<open>caches.keys\<close>,
  \<open>caches.delete\<close>, \<open>fetch\<close>) are embedded after the algorithms of the W3C Service
  Workers recommendation, as functions on an explicit world state. A promise is the
  value it settles with: \<open>Inr\<close> for fulfilment, \<open>Inl\<close> for rejection. Each listener
  runs to completion on the world it is given; interleaving with other events is
  outside the model, and so are storage quota and \<open>Vary\<close> header negotiation.
\<close>

subsection \<open>Data\<close>

text \<open>
  A request is its URL and method. URL strings stand for the parsed URL the browser
  compares (resolved against the worker's origin, fragment excluded).
\<close>

record request =
  rq_url :: string
  rq_method :: string

record response =
  rs_status :: nat
  rs_body :: string

datatype error = TypeError | InvalidStateError | AbortError

text \<open>
  A bucket is the \<open>request response list\<close> of a Cache object; cache storage is the
  ordered \<open>name to cache map\<close>, oldest bucket first.
\<close>

type_synonym bucket = "(request \<times> response) list"

type_synonym cache_storage = "(string \<times> bucket) list"

text \<open>The network is a parameter: what \<open>fetch\<close> settles with for each request.\<close>

type_synonym network = "request \<Rightarrow> error + response"

text \<open>The world: the origin's cache storage, and the requests sent to the network so far.\<close>

record world =
  caches :: cache_storage
  netlog :: "request list"

subsection \<open>Constants of the worker\<close>

definition CACHE_NAME :: string where
  "CACHE_NAME = ''vofo-music-v1''"

definition urlsToCache :: "string list" where
  "urlsToCache =
     [''/'',
      ''/index.html'',
      ''/manifest.json'',
      ''https://fonts.googleapis.com/css2?family=Cormorant+Garamond:ital,wght@0,400;0,500;0,600;1,400&family=Montserrat:wght@300;400;500;600&display=swap'']"

subsection \<open>Browser operations\<close>

text \<open>\<open>new Request(url)\<close>: a string names a GET request.\<close>

definition mk_request :: "string \<Rightarrow> request" where
  "mk_request u = \<lparr>rq_url = u, rq_method = ''GET''\<rparr>"

text \<open>
  \<open>Request Matches Cached Item\<close> with default options: the cached request must be a
  GET and the URLs must be equal.
\<close>

definition request_matches :: "request \<Rightarrow> request \<Rightarrow> bool" where
  "request_matches q c \<longleftrightarrow> rq_method c = ''GET'' \<and> rq_url q = rq_url c"

definition query_cache :: "request \<Rightarrow> bucket \<Rightarrow> bucket" where
  "query_cache q b = filter (\<lambda>(c, r). request_matches q c) b"

text \<open>
  \<open>cache.matchAll(request)\<close> with default options: a request whose method is not GET
  yields the empty array. \<open>cache.match\<close> is the first element of \<open>matchAll\<close>, or
  \<open>undefined\<close> (\<open>None\<close>).
\<close>

definition cache_matchAll :: "request \<Rightarrow> bucket \<Rightarrow> response list" where
  "cache_matchAll q b =
     (if rq_method q \<noteq> ''GET'' then [] else map snd (query_cache q b))"

definition cache_match :: "request \<Rightarrow> bucket \<Rightarrow> response option" where
  "cache_match q b = (case cache_matchAll q b of [] \<Rightarrow> None | r # _ \<Rightarrow> Some r)"

text \<open>
  \<open>caches.match(request)\<close> without a \<open>cacheName\<close> option: every bucket is asked in the
  order of the map, and the first response found is the result.
\<close>

fun storage_match :: "request \<Rightarrow> cache_storage \<Rightarrow> response option" where
  "storage_match q [] = None"
| "storage_match q ((n, b) # cs) =
     (case cache_match q b of Some r \<Rightarrow> Some r | None \<Rightarrow> storage_match q cs)"

definition caches_match :: "request \<Rightarrow> world \<Rightarrow> response option \<times> world" where
  "caches_match q w = (storage_match q (caches w), w)"

definition caches_keys :: "world \<Rightarrow> string list \<times> world" where
  "caches_keys w = (map fst (caches w), w)"

definition caches_has :: "string \<Rightarrow> world \<Rightarrow> bool" where
  "caches_has n w \<longleftrightarrow> n \<in> set (map fst (caches w))"

text \<open>\<open>caches.delete(name)\<close>: removes the bucket and tells whether there was one.\<close>

definition caches_delete :: "string \<Rightarrow> world \<Rightarrow> bool \<times> world" where
  "caches_delete n w =
     (caches_has n w, w\<lparr>caches := filter (\<lambda>(m, b). m \<noteq> n) (caches w)\<rparr>)"

text \<open>
  \<open>caches.open(name)\<close>: the bucket of that name, created empty at the end of the map
  when there is none. The Cache object handed back is identified by the name.
\<close>

definition caches_open :: "string \<Rightarrow> world \<Rightarrow> string \<times> world" where
  "caches_open n w =
     (n, if caches_has n w then w else w\<lparr>caches := caches w @ [(n, [])]\<rparr>)"

text \<open>The contents of a named bucket (empty when there is no such bucket).\<close>

definition bucket_of :: "string \<Rightarrow> world \<Rightarrow> bucket" where
  "bucket_of n w = (case map_of (caches w) n of None \<Rightarrow> [] | Some b \<Rightarrow> b)"

definition set_bucket :: "string \<Rightarrow> bucket \<Rightarrow> world \<Rightarrow> world" where
  "set_bucket n b w =
     w\<lparr>caches := map (\<lambda>(m, old). if m = n then (m, b) else (m, old)) (caches w)\<rparr>"

text \<open>The global \<open>fetch(request)\<close>: one network call, logged, settled by the network.\<close>

definition net_fetch :: "network \<Rightarrow> request \<Rightarrow> world \<Rightarrow> (error + response) \<times> world" where
  "net_fetch net q w = (net q, w\<lparr>netlog := netlog w @ [q]\<rparr>)"

text \<open>
  \<open>cache.addAll\<close> accepts a fetched response only when the fetch fulfilled with an ok
  status (200 to 299) other than 206.
\<close>

definition addable :: "error + response \<Rightarrow> bool" where
  "addable x =
     (case x of
        Inl e \<Rightarrow> False
      | Inr r \<Rightarrow> 200 \<le> rs_status r \<and> rs_status r \<le> 299 \<and> rs_status r \<noteq> 206)"

text \<open>
  \<open>Batch Cache Operations\<close> for a list of \<open>put\<close> operations. A request that matches one
  already added by the same batch raises \<open>InvalidStateError\<close>, a request that is not
  a GET raises \<open>TypeError\<close>; otherwise the entries the request matches are removed and
  the new pair is appended. On an error the caller keeps the bucket it had.
\<close>

fun batch_put :: "(request \<times> response) list \<Rightarrow> bucket \<Rightarrow> bucket \<Rightarrow> error + bucket" where
  "batch_put [] cache added = Inr cache"
| "batch_put ((q, r) # ops) cache added =
     (if query_cache q added \<noteq> [] then Inl InvalidStateError
      else if rq_method q \<noteq> ''GET'' then Inl TypeError
      else batch_put ops
             (filter (\<lambda>(c, old). \<not> request_matches q c) cache @ [(q, r)])
             (added @ [(q, r)]))"

text \<open>
  \<open>cache.addAll(urls)\<close> on the bucket named \<open>n\<close>: every URL is fetched (all fetches are
  started, so all are logged); if any is not accepted the promise rejects with
  \<open>TypeError\<close> and nothing is written; otherwise the batch of puts runs, and its
  result replaces the bucket only when it succeeds.
\<close>

fun fetch_each :: "network \<Rightarrow> request list \<Rightarrow> world \<Rightarrow> (error + response) list \<times> world" where
  "fetch_each net [] w = ([], w)"
| "fetch_each net (q # qs) w =
     (let (x, w1) = net_fetch net q w;
          (xs, w2) = fetch_each net qs w1
      in (x # xs, w2))"

definition cache_addAll :: "network \<Rightarrow> string \<Rightarrow> string list \<Rightarrow> world \<Rightarrow> (error + unit) \<times> world" where
  "cache_addAll net n urls w =
     (let qs = map mk_request urls;
          (xs, w1) = fetch_each net qs w
      in if \<not> list_all addable xs then (Inl TypeError, w1)
         else (case batch_put (zip qs (map projr xs)) (bucket_of n w1) [] of
                 Inl e \<Rightarrow> (Inl e, w1)
               | Inr b \<Rightarrow> (Inr (), set_bucket n b w1)))"

subsection \<open>The listeners\<close>

text \<open>
  The listeners take the version label as an argument, so that a deployment with
  another label can be stated; the worker as shipped runs them at \<open>CACHE_NAME\<close>.

  \<open>install\<close>: \<open>caches.open(CACHE_NAME).then(cache => cache.addAll(urlsToCache))\<close>.
\<close>

definition install :: "string \<Rightarrow> network \<Rightarrow> world \<Rightarrow> (error + unit) \<times> world" where
  "install cn net w =
     (let (cache, w1) = caches_open cn w
      in cache_addAll net cache urlsToCache w1)"

text \<open>
  \<open>fetch\<close>: \<open>caches.match(event.request)\<close>, then the response when there is one, else
  \<open>fetch(event.request)\<close>.
\<close>

definition fetch_handler :: "network \<Rightarrow> request \<Rightarrow> world \<Rightarrow> (error + response) \<times> world" where
  "fetch_handler net q w =
     (let (response, w1) = caches_match q w
      in case response of
           Some r \<Rightarrow> (Inr r, w1)
         | None \<Rightarrow> net_fetch net q w1)"

text \<open>
  \<open>activate\<close>: \<open>caches.keys()\<close>, then for each name the promise of
  \<open>caches.delete(name)\<close> when the name is not the label and \<open>undefined\<close> (\<open>None\<close>)
  when it is; \<open>Promise.all\<close> gathers the results in the order of the names.
\<close>

fun delete_stale :: "string \<Rightarrow> string list \<Rightarrow> world \<Rightarrow> bool option list \<times> world" where
  "delete_stale cn [] w = ([], w)"
| "delete_stale cn (cacheName # rest) w =
     (let (x, w1) =
            (if cacheName \<noteq> cn
             then (let (found, w') = caches_delete cacheName w in (Some found, w'))
             else (None, w));
          (xs, w2) = delete_stale cn rest w1
      in (x # xs, w2))"

definition activate :: "string \<Rightarrow> world \<Rightarrow> bool option list \<times> world" where
  "activate cn w =
     (let (cacheNames, w1) = caches_keys w
      in delete_stale cn cacheNames w1)"

text \<open>
  The browser's lifecycle for a newly deployed worker: \<open>install\<close> is dispatched; when
  the promise given to \<open>waitUntil\<close> rejects the worker is discarded and \<open>activate\<close> is
  never dispatched; when it fulfils, \<open>activate\<close> follows.
\<close>

definition deploy :: "string \<Rightarrow> network \<Rightarrow> world \<Rightarrow> (error + bool option list) \<times> world" where
  "deploy cn net w =
     (case install cn net w of
        (Inl e, w1) \<Rightarrow> (Inl e, w1)
      | (Inr u, w1) \<Rightarrow> (let (xs, w2) = activate cn w1 in (Inr xs, w2)))"

text \<open>
  The three \<open>addEventListener\<close> registrations as one dispatcher: the world after the
  listener of an event has run, and after a sequence of events, each run to completion
  before the next. The points between the events are the quiescent points.
\<close>

datatype event = InstallEvent network | FetchEvent network request | ActivateEvent

fun dispatch :: "string \<Rightarrow> event \<Rightarrow> world \<Rightarrow> world" where
  "dispatch cn (InstallEvent net) w = snd (install cn net w)"
| "dispatch cn (FetchEvent net q) w = snd (fetch_handler net q w)"
| "dispatch cn ActivateEvent w = snd (activate cn w)"

fun run_events :: "string \<Rightarrow> event list \<Rightarrow> world \<Rightarrow> world" where
  "run_events cn [] w = w"
| "run_events cn (e # es) w = run_events cn es (dispatch cn e w)"

subsection \<open>Observations and sample worlds\<close>

text \<open>The buckets that carry a given label.\<close>

definition current_buckets :: "string \<Rightarrow> world \<Rightarrow> cache_storage" where
  "current_buckets cn w = filter (\<lambda>(n, b). n = cn) (caches w)"

text \<open>Two stored pages, three networks and three worlds, used to run the listeners.\<close>

definition page_old :: response where
  "page_old = \<lparr>rs_status = 200, rs_body = ''<h1>old</h1>''\<rparr>"

definition page_new :: response where
  "page_new = \<lparr>rs_status = 200, rs_body = ''<h1>new</h1>''\<rparr>"

definition net_up :: network where
  "net_up q = Inr \<lparr>rs_status = 200, rs_body = rq_url q\<rparr>"

definition net_down :: network where
  "net_down q = Inl TypeError"

definition net_no_manifest :: network where
  "net_no_manifest q =
     (if rq_url q = ''/manifest.json'' then Inr \<lparr>rs_status = 404, rs_body = ''Not Found''\<rparr>
      else Inr \<lparr>rs_status = 200, rs_body = rq_url q\<rparr>)"

definition fresh_world :: world where
  "fresh_world = \<lparr>caches = [], netlog = []\<rparr>"

definition served_world :: world where
  "served_world = \<lparr>caches = [(CACHE_NAME, [(mk_request ''/'', page_new)])], netlog = []\<rparr>"

definition shadowed_world :: world where
  "shadowed_world =
     \<lparr>caches = [(''vofo-music-v0'', [(mk_request ''/'', page_old)]),
                (CACHE_NAME, [(mk_request ''/'', page_new)])],
      netlog = []\<rparr>"

definition staged_world :: world where
  "staged_world =
     \<lparr>caches = [(''vofo-music-v0'', [(mk_request ''/old.css'', page_old)]),
                (CACHE_NAME, [(mk_request ''/'', page_new)])],
      netlog = []\<rparr>"

section \<open>Properties of the browser operations\<close>

lemma fetch_each_eq:
  "fetch_each net qs w = (map net qs, w\<lparr>netlog := netlog w @ qs\<rparr>)"
  by (induction qs arbitrary: w) (simp_all add: net_fetch_def)

lemma keep_label_filter:
  "filter (\<lambda>(m, b). m = cn \<or> m \<noteq> n \<and> m \<notin> set ns) cs =
   filter (\<lambda>(m, b). m = cn \<or> m \<notin> set ns) (filter (\<lambda>(m, b). m \<noteq> n) cs)"
  if "n \<noteq> cn"
  using that by (induction cs) auto

lemma delete_stale_world:
  "snd (delete_stale cn ns w) =
     w\<lparr>caches := filter (\<lambda>(m, b). m = cn \<or> m \<notin> set ns) (caches w)\<rparr>"
proof (induction ns arbitrary: w)
  case Nil
  show ?case by simp
next
  case (Cons n ns)
  show ?case
  proof (cases "n = cn")
    case True
    have "filter (\<lambda>(m, b). m = cn \<or> m \<noteq> cn \<and> m \<notin> set ns) (caches w) =
          filter (\<lambda>(m, b). m = cn \<or> m \<notin> set ns) (caches w)"
      by (rule filter_cong) auto
    with True show ?thesis
      using Cons.IH [of w] by (simp add: split_def Let_def)
  next
    case False
    then show ?thesis
      using Cons.IH [of "snd (caches_delete n w)"] keep_label_filter [of n cn ns "caches w"]
      by (simp add: split_def Let_def caches_delete_def)
  qed
qed

lemma delete_stale_results:
  "map (\<lambda>x. x = None) (fst (delete_stale cn ns w)) = map (\<lambda>n. n = cn) ns"
  by (induction ns arbitrary: w) (simp_all add: split_def Let_def)

lemma activate_world:
  "snd (activate cn w) = w\<lparr>caches := filter (\<lambda>(m, b). m = cn) (caches w)\<rparr>"
proof -
  have "filter (\<lambda>(m, b). m = cn \<or> m \<notin> set (map fst (caches w))) (caches w)
      = filter (\<lambda>(m, b). m = cn) (caches w)"
    by (rule filter_cong) force+
  then show ?thesis
    by (simp add: activate_def caches_keys_def delete_stale_world)
qed

lemma activate_results:
  "map (\<lambda>x. x = None) (fst (activate cn w)) = map (\<lambda>n. n = cn) (map fst (caches w))"
  using delete_stale_results [of cn "map fst (caches w)" w]
  by (simp add: activate_def caches_keys_def)

lemma map_of_keep_label:
  "map_of (filter (\<lambda>(m, b). m = cn) cs) cn = map_of cs cn"
  by (induction cs) auto

lemma batch_put_distinct:
  assumes "distinct us"
    and "\<forall>(c, x) \<in> set added. rq_url c \<notin> set us \<or> rq_method c \<noteq> ''GET''"
  shows "batch_put (map (\<lambda>u. (mk_request u, f u)) us) cache added =
         Inr (filter (\<lambda>(c, old). rq_url c \<notin> set us \<or> rq_method c \<noteq> ''GET'') cache
              @ map (\<lambda>u. (mk_request u, f u)) us)"
  using assms
proof (induction us arbitrary: cache added)
  case Nil
  then show ?case by simp
next
  case (Cons u us)
  have miss: "query_cache (mk_request u) added = []"
    using Cons.prems(2)
    by (auto simp add: query_cache_def request_matches_def mk_request_def filter_empty_conv)
  have added': "\<forall>(c, x) \<in> set (added @ [(mk_request u, f u)]).
                  rq_url c \<notin> set us \<or> rq_method c \<noteq> ''GET''"
    using Cons.prems by (auto simp add: mk_request_def)
  have keep: "filter (\<lambda>(c, old). rq_url c \<notin> set us \<or> rq_method c \<noteq> ''GET'')
                (filter (\<lambda>(c, old). \<not> request_matches (mk_request u) c) cache)
              = filter (\<lambda>(c, old). rq_url c \<notin> set (u # us) \<or> rq_method c \<noteq> ''GET'') cache"
    by (induction cache) (auto simp add: request_matches_def mk_request_def)
  have "batch_put (map (\<lambda>u. (mk_request u, f u)) (u # us)) cache added =
        batch_put (map (\<lambda>u. (mk_request u, f u)) us)
          (filter (\<lambda>(c, old). \<not> request_matches (mk_request u) c) cache @ [(mk_request u, f u)])
          (added @ [(mk_request u, f u)])"
    using miss by (simp add: mk_request_def)
  also have "\<dots> = Inr (filter (\<lambda>(c, old). rq_url c \<notin> set us \<or> rq_method c \<noteq> ''GET'')
                 (filter (\<lambda>(c, old). \<not> request_matches (mk_request u) c) cache @ [(mk_request u, f u)])
               @ map (\<lambda>u. (mk_request u, f u)) us)"
    using Cons.IH [OF _ added'] Cons.prems(1) by simp
  also have "\<dots> = Inr (filter (\<lambda>(c, old). rq_url c \<notin> set (u # us) \<or> rq_method c \<noteq> ''GET'') cache
               @ map (\<lambda>u. (mk_request u, f u)) (u # us))"
    using Cons.prems(1) keep by (simp add: mk_request_def)
  finally show ?case .
qed

lemma cache_match_append_miss:
  "query_cache q b1 = [] \<Longrightarrow> cache_match q (b1 @ b2) = cache_match q b2"
  by (simp add: cache_match_def cache_matchAll_def query_cache_def)

lemma cache_match_fetched:
  "u \<in> set us \<Longrightarrow>
   cache_match (mk_request u) (map (\<lambda>u. (mk_request u, f u)) us) = Some (f u)"
  by (induction us)
     (auto simp add: cache_match_def cache_matchAll_def query_cache_def
        request_matches_def mk_request_def)

lemma query_cache_replaced:
  "u \<in> set us \<Longrightarrow>
   query_cache (mk_request u)
     (filter (\<lambda>(c, old). rq_url c \<notin> set us \<or> rq_method c \<noteq> ''GET'') cache) = []"
  by (auto simp add: query_cache_def request_matches_def mk_request_def filter_empty_conv)

lemma distinct_urlsToCache: "distinct urlsToCache"
  by (simp add: urlsToCache_def)

lemma zip_fetched:
  "zip (map mk_request us) (map projr (map net (map mk_request us))) =
   map (\<lambda>u. (mk_request u, projr (net (mk_request u)))) us"
  by (induction us) simp_all

lemma caches_open_has: "caches_has cn (snd (caches_open cn w))"
  by (simp add: caches_open_def caches_has_def)

lemma caches_open_netlog: "netlog (snd (caches_open cn w)) = netlog w"
  by (simp add: caches_open_def)

lemma caches_open_bucket: "bucket_of cn (snd (caches_open cn w)) = bucket_of cn w"
proof (cases "caches_has cn w")
  case True
  then show ?thesis by (simp add: caches_open_def)
next
  case False
  then have "map_of (caches w) cn = None"
    by (simp add: caches_has_def map_of_eq_None_iff)
  with False show ?thesis
    by (simp add: caches_open_def bucket_of_def map_add_def)
qed

lemma bucket_of_set_bucket:
  "caches_has n w \<Longrightarrow> bucket_of n (set_bucket n b w) = b"
proof -
  have "m \<in> fst ` set cs \<Longrightarrow>
        map_of (map (\<lambda>(m', old). if m' = m then (m', b) else (m', old)) cs) m = Some b" for m :: string and cs :: cache_storage
    by (induction cs) auto
  from this [of n "caches w"] show "caches_has n w \<Longrightarrow> bucket_of n (set_bucket n b w) = b"
    by (simp add: caches_has_def bucket_of_def set_bucket_def)
qed

lemma bucket_of_netlog: "bucket_of n (w\<lparr>netlog := l\<rparr>) = bucket_of n w"
  by (simp add: bucket_of_def)

lemma caches_has_netlog: "caches_has n (w\<lparr>netlog := l\<rparr>) = caches_has n w"
  by (simp add: caches_has_def)

lemma caches_has_set_bucket: "caches_has m (set_bucket n b w) = caches_has m w"
  by (force simp add: caches_has_def set_bucket_def split: if_splits)

lemma install_rejected:
  assumes "\<not> list_all (\<lambda>u. addable (net (mk_request u))) urlsToCache"
  shows "install cn net w =
         (Inl TypeError,
          (snd (caches_open cn w))\<lparr>netlog := netlog w @ map mk_request urlsToCache\<rparr>)"
  using assms
  by (simp add: install_def cache_addAll_def fetch_each_eq caches_open_def
      list_all_iff split_def)

lemma install_fulfilled:
  assumes "list_all (\<lambda>u. addable (net (mk_request u))) urlsToCache"
  shows "install cn net w =
         (Inr (),
          set_bucket cn
            (filter (\<lambda>(c, old). rq_url c \<notin> set urlsToCache \<or> rq_method c \<noteq> ''GET'')
               (bucket_of cn w)
             @ map (\<lambda>u. (mk_request u, projr (net (mk_request u)))) urlsToCache)
            ((snd (caches_open cn w))\<lparr>netlog := netlog w @ map mk_request urlsToCache\<rparr>))"
proof -
  let ?w1 = "snd (caches_open cn w)"
  let ?w2 = "?w1\<lparr>netlog := netlog ?w1 @ map mk_request urlsToCache\<rparr>"
  have all: "list_all addable (map net (map mk_request urlsToCache))"
    using assms by (simp add: list_all_iff)
  have put: "batch_put (zip (map mk_request urlsToCache)
                 (map projr (map net (map mk_request urlsToCache)))) (bucket_of cn ?w2) [] =
             Inr (filter (\<lambda>(c, old). rq_url c \<notin> set urlsToCache \<or> rq_method c \<noteq> ''GET'')
                    (bucket_of cn w)
                  @ map (\<lambda>u. (mk_request u, projr (net (mk_request u)))) urlsToCache)"
    unfolding zip_fetched
    by (subst batch_put_distinct) (simp_all add: distinct_urlsToCache bucket_of_netlog caches_open_bucket)
  have "install cn net w = cache_addAll net cn urlsToCache ?w1"
    by (simp add: install_def caches_open_def)
  also have "\<dots> = (Inr (), set_bucket cn
            (filter (\<lambda>(c, old). rq_url c \<notin> set urlsToCache \<or> rq_method c \<noteq> ''GET'')
               (bucket_of cn w)
             @ map (\<lambda>u. (mk_request u, projr (net (mk_request u)))) urlsToCache) ?w2)"
    using all put by (simp add: cache_addAll_def fetch_each_eq)
  finally show ?thesis by (simp add: caches_open_netlog)
qed

lemma install_result:
  "fst (install cn net w) =
     (if list_all (\<lambda>u. addable (net (mk_request u))) urlsToCache then Inr () else Inl TypeError)"
  by (simp add: install_rejected install_fulfilled)

lemma storage_match_first:
  assumes "map_of cs cn = Some b"
    and "\<forall>(n, b') \<in> set (takeWhile (\<lambda>(n, b'). n \<noteq> cn) cs). cache_match q b' = None"
    and "cache_match q b = Some r"
  shows "storage_match q cs = Some r"
  using assms
proof (induction cs)
  case Nil
  then show ?case by simp
next
  case (Cons p cs)
  obtain n b' where p: "p = (n, b')" by (cases p)
  show ?case
  proof (cases "n = cn")
    case True
    with Cons.prems p show ?thesis by simp
  next
    case False
    with Cons.prems p have "cache_match q b' = None" and "map_of cs cn = Some b"
      and "\<forall>(n, b') \<in> set (takeWhile (\<lambda>(n, b'). n \<noteq> cn) cs). cache_match q b' = None"
      by simp_all
    with Cons.IH Cons.prems(3) p show ?thesis by simp
  qed
qed

lemma storage_match_none:
  "\<forall>(n, b) \<in> set cs. cache_match q b = None \<Longrightarrow> storage_match q cs = None"
  by (induction cs) auto

lemma cache_match_not_get: "rq_method q \<noteq> ''GET'' \<Longrightarrow> cache_match q b = None"
  by (simp add: cache_match_def cache_matchAll_def)

lemma fetch_handler_hit:
  "storage_match q (caches w) = Some r \<Longrightarrow> fetch_handler net q w = (Inr r, w)"
  by (simp add: fetch_handler_def caches_match_def)

lemma fetch_handler_miss:
  "storage_match q (caches w) = None \<Longrightarrow>
   fetch_handler net q w = (net q, w\<lparr>netlog := netlog w @ [q]\<rparr>)"
  by (simp add: fetch_handler_def caches_match_def net_fetch_def)

lemma install_keys:
  "map fst (caches (snd (install cn net w))) = map fst (caches (snd (caches_open cn w)))"
proof (cases "list_all (\<lambda>u. addable (net (mk_request u))) urlsToCache")
  case True
  have "map fst (map (\<lambda>(m, old). if m = cn then (m, b) else (m, old)) cs) = map fst cs"
    for b :: bucket and cs :: cache_storage
    by (induction cs) auto
  with True show ?thesis
    by (simp add: install_fulfilled set_bucket_def del: map_map)
next
  case False
  then show ?thesis by (simp add: install_rejected)
qed

lemma keys_keep_label:
  "map fst (filter (\<lambda>(m, b). m = cn) cs) = filter (\<lambda>m. m = cn) (map fst cs)"
  by (induction cs) auto

lemma filter_fresh: "cn \<notin> set ns \<Longrightarrow> filter (\<lambda>m. m = cn) ns = []"
  by (induction ns) auto

lemma storage_match_split:
  "storage_match q cs = Some r' \<Longrightarrow>
   \<exists>pre n b post. cs = pre @ (n, b) # post \<and>
     (\<forall>p \<in> set pre. cache_match q (snd p) = None) \<and> cache_match q b = Some r'"
proof (induction cs)
  case Nil
  then show ?case by simp
next
  case (Cons p cs)
  obtain n b where p: "p = (n, b)" by (cases p)
  show ?case
  proof (cases "cache_match q b")
    case None
    with Cons.prems p have "storage_match q cs = Some r'" by simp
    from Cons.IH [OF this] obtain pre n' b' post where
      cs: "cs = pre @ (n', b') # post" and
      miss: "\<forall>p \<in> set pre. cache_match q (snd p) = None" and
      hit: "cache_match q b' = Some r'"
      by (elim exE conjE)
    from cs have "p # cs = (p # pre) @ (n', b') # post" by simp
    moreover from miss None p have "\<forall>x \<in> set (p # pre). cache_match q (snd x) = None"
      by simp
    ultimately show ?thesis using hit by (intro exI conjI)
  next
    case (Some x)
    with Cons.prems p have "cache_match q b = Some r'" by simp
    moreover have "p # cs = [] @ (n, b) # cs" using p by simp
    moreover have "\<forall>x \<in> set ([] :: cache_storage). cache_match q (snd x) = None" by simp
    ultimately show ?thesis by (intro exI conjI)
  qed
qed

lemma storage_match_some:
  "map_of cs cn = Some b \<Longrightarrow> cache_match q b = Some r \<Longrightarrow> \<exists>r'. storage_match q cs = Some r'"
proof (induction cs)
  case Nil
  then show ?case by simp
next
  case (Cons p cs)
  obtain n b0 where p: "p = (n, b0)" by (cases p)
  show ?case
  proof (cases "cache_match q b0")
    case None
    with Cons p show ?thesis by (auto split: if_splits)
  next
    case (Some x)
    with p show ?thesis by simp
  qed
qed

lemma fetch_handler_caches: "caches (snd (fetch_handler net q w)) = caches w"
  by (simp add: fetch_handler_def caches_match_def net_fetch_def split: option.splits)

lemma current_buckets_fresh: "\<not> caches_has cn w \<Longrightarrow> current_buckets cn w = []"
proof -
  have "cn \<notin> fst ` set cs \<Longrightarrow> filter (\<lambda>(n, b). n = cn) cs = []" for cs :: cache_storage
    by (induction cs) auto
  then show "\<not> caches_has cn w \<Longrightarrow> current_buckets cn w = []"
    by (simp add: caches_has_def current_buckets_def)
qed

lemma current_buckets_netlog: "current_buckets cn (w\<lparr>netlog := l\<rparr>) = current_buckets cn w"
  by (simp add: current_buckets_def)

lemma current_buckets_set_bucket:
  "length (current_buckets cn (set_bucket n b w)) = length (current_buckets cn w)"
proof -
  have "length (filter (\<lambda>(m, x). m = cn)
                 (map (\<lambda>(m, old). if m = n then (m, b) else (m, old)) cs)) =
        length (filter (\<lambda>(m, x). m = cn) cs)" for cs :: cache_storage
    by (induction cs) (auto split: if_splits)
  then show ?thesis
    by (simp add: current_buckets_def set_bucket_def)
qed

lemma current_buckets_open:
  "length (current_buckets cn (snd (caches_open cn w))) =
     (if caches_has cn w then length (current_buckets cn w) else 1)"
proof (cases "caches_has cn w")
  case True
  then show ?thesis by (simp add: caches_open_def)
next
  case False
  then have "current_buckets cn w = []" by (rule current_buckets_fresh)
  with False show ?thesis
    by (simp add: caches_open_def current_buckets_def)
qed

lemma current_buckets_install:
  "length (current_buckets cn (snd (install cn net w))) =
     (if caches_has cn w then length (current_buckets cn w) else 1)"
proof (cases "list_all (\<lambda>u. addable (net (mk_request u))) urlsToCache")
  case True
  show ?thesis
    unfolding install_fulfilled [OF True] snd_conv current_buckets_set_bucket
      current_buckets_netlog current_buckets_open ..
next
  case False
  show ?thesis
    unfolding install_rejected [OF False] snd_conv current_buckets_netlog
      current_buckets_open ..
qed

lemma current_buckets_activate:
  "current_buckets cn (snd (activate cn w)) = current_buckets cn w"
  by (simp add: activate_world current_buckets_def)

lemma current_buckets_fetch:
  "current_buckets cn (snd (fetch_handler net q w)) = current_buckets cn w"
  by (simp add: current_buckets_def fetch_handler_caches)

lemma one_current_has: "length (current_buckets cn w) = 1 \<Longrightarrow> caches_has cn w"
  using current_buckets_fresh [of cn w] by (cases "caches_has cn w") simp_all

lemma dispatch_keeps_one:
  "length (current_buckets cn w) = 1 \<Longrightarrow> length (current_buckets cn (dispatch cn e w)) = 1"
  by (cases e)
     (simp_all add: current_buckets_install one_current_has current_buckets_fetch
        current_buckets_activate)

lemma run_keeps_one:
  "length (current_buckets cn w) = 1 \<Longrightarrow> length (current_buckets cn (run_events cn es w)) = 1"
  by (induction es arbitrary: w) (simp_all add: dispatch_keeps_one)

lemmas platform_defs =
  CACHE_NAME_def mk_request_def request_matches_def query_cache_def cache_matchAll_def
  cache_match_def caches_match_def caches_keys_def caches_has_def caches_delete_def
  caches_open_def bucket_of_def set_bucket_def net_fetch_def addable_def cache_addAll_def
  install_def fetch_handler_def activate_def deploy_def

lemmas example_defs =
  page_old_def page_new_def net_up_def net_down_def net_no_manifest_def fresh_world_def
  served_world_def shadowed_world_def staged_world_def

section \<open>The fetch listener\<close>

text \<open>
  C1, as stated: for every request that matches an entry stored in the current cache
  bucket, the fetch handler resolves with that stored response and performs no network
  call. \<open>caches.match\<close> asks every bucket of the origin, oldest first, so in
  \<open>shadowed_world\<close> the request for \<open>/\<close> matches \<open>page_new\<close> in the current bucket
  and the handler resolves with \<open>page_old\<close>, the entry of the older bucket.
\<close>

theorem fetch_current_bucket_shadowed:
  "cache_match (mk_request ''/'') (bucket_of CACHE_NAME shadowed_world) = Some page_new \<and>
   fetch_handler net_down (mk_request ''/'') shadowed_world = (Inr page_old, shadowed_world) \<and>
   page_old \<noteq> page_new"
  by (simp add: platform_defs example_defs)

text \<open>
  C1, amended: for every request that matches an entry stored in the current cache
  bucket, the fetch handler resolves with a stored response and performs no network
  call (the world, and with it the log of network calls, is unchanged). The response
  is the match of the first bucket, in creation order, that holds one; it is the
  current bucket's response whenever no bucket that comes before the current one
  holds a match.
\<close>

theorem fetch_serves_first_match:
  assumes "cache_match q (bucket_of CACHE_NAME w) = Some r"
  shows "\<exists>pre n b post r'.
           caches w = pre @ (n, b) # post \<and>
           (\<forall>p \<in> set pre. cache_match q (snd p) = None) \<and>
           cache_match q b = Some r' \<and>
           fetch_handler net q w = (Inr r', w) \<and>
           ((\<forall>(m, b') \<in> set (takeWhile (\<lambda>(m, b'). m \<noteq> CACHE_NAME) (caches w)).
               cache_match q b' = None) \<longrightarrow> r' = r)"
proof -
  from assms obtain b0 where b0: "map_of (caches w) CACHE_NAME = Some b0"
    by (cases "map_of (caches w) CACHE_NAME")
       (simp_all add: bucket_of_def cache_match_def cache_matchAll_def query_cache_def
          split: if_splits)
  with assms have hit: "cache_match q b0 = Some r"
    by (simp add: bucket_of_def)
  from storage_match_some [OF b0 hit] obtain r' where r': "storage_match q (caches w) = Some r'"
    by (elim exE)
  from storage_match_split [OF r'] obtain pre n b post where
    split: "caches w = pre @ (n, b) # post" and
    miss: "\<forall>p \<in> set pre. cache_match q (snd p) = None" and
    first: "cache_match q b = Some r'"
    by (elim exE conjE)
  have served: "fetch_handler net q w = (Inr r', w)"
    using r' by (rule fetch_handler_hit)
  have same: "(\<forall>(m, b') \<in> set (takeWhile (\<lambda>(m, b'). m \<noteq> CACHE_NAME) (caches w)).
               cache_match q b' = None) \<longrightarrow> r' = r"
  proof
    assume "\<forall>(m, b') \<in> set (takeWhile (\<lambda>(m, b'). m \<noteq> CACHE_NAME) (caches w)).
              cache_match q b' = None"
    from storage_match_first [OF b0 this hit] r' show "r' = r" by simp
  qed
  from split miss first served same show ?thesis by (intro exI conjI)
qed

theorem fetch_serves_first_match_witness:
  "(\<exists>r'. fetch_handler net_down (mk_request ''/'') shadowed_world = (Inr r', shadowed_world)) \<and>
   fetch_handler net_down (mk_request ''/'') staged_world = (Inr page_new, staged_world)"
proof -
  have h1: "cache_match (mk_request ''/'') (bucket_of CACHE_NAME shadowed_world) = Some page_new"
    by (simp add: platform_defs example_defs)
  have h2: "cache_match (mk_request ''/'') (bucket_of CACHE_NAME staged_world) = Some page_new"
    by (simp add: platform_defs example_defs staged_world_def)
  have h3: "\<forall>(m, b') \<in> set (takeWhile (\<lambda>(m, b'). m \<noteq> CACHE_NAME) (caches staged_world)).
              cache_match (mk_request ''/'') b' = None"
    by (simp add: platform_defs example_defs staged_world_def)
  from fetch_serves_first_match [OF h1, of net_down]
  obtain r1 where "fetch_handler net_down (mk_request ''/'') shadowed_world = (Inr r1, shadowed_world)"
    by (elim exE conjE)
  then have first: "\<exists>r'. fetch_handler net_down (mk_request ''/'') shadowed_world =
                      (Inr r', shadowed_world)" ..
  from fetch_serves_first_match [OF h2, of net_down]
  obtain r2 where served: "fetch_handler net_down (mk_request ''/'') staged_world = (Inr r2, staged_world)"
    and same: "(\<forall>(m, b') \<in> set (takeWhile (\<lambda>(m, b'). m \<noteq> CACHE_NAME) (caches staged_world)).
                 cache_match (mk_request ''/'') b' = None) \<longrightarrow> r2 = page_new"
    by (elim exE conjE)
  from same h3 have "r2 = page_new" ..
  with served first show ?thesis by simp
qed

text \<open>
  C2: for every request that matches no entry in the cache (no bucket of the storage
  holds a match), the fetch handler makes one network call for that request and
  resolves or rejects exactly as the network does.
\<close>

theorem fetch_miss_forwards_to_network:
  assumes "\<forall>(n, b) \<in> set (caches w). cache_match q b = None"
  shows "fetch_handler net q w = (net q, w\<lparr>netlog := netlog w @ [q]\<rparr>)"
  using assms by (simp add: storage_match_none fetch_handler_miss)

theorem fetch_miss_forwards_to_network_witness:
  "fetch_handler net_down (mk_request ''/app.js'') served_world =
     (Inl TypeError, served_world\<lparr>netlog := [mk_request ''/app.js'']\<rparr>) \<and>
   fetch_handler net_up (mk_request ''/app.js'') served_world =
     (Inr \<lparr>rs_status = 200, rs_body = ''/app.js''\<rparr>,
      served_world\<lparr>netlog := [mk_request ''/app.js'']\<rparr>)"
proof -
  have h: "\<forall>(n, b) \<in> set (caches served_world). cache_match (mk_request ''/app.js'') b = None"
    by (simp add: platform_defs example_defs)
  show ?thesis
    using fetch_miss_forwards_to_network [OF h, of net_down]
      fetch_miss_forwards_to_network [OF h, of net_up]
    by (simp add: net_down_def net_up_def served_world_def mk_request_def)
qed

text \<open>
  C8: the fetch handler never mutates cache storage: for every network, request and
  world, the buckets and their contents after the handler are those before it.
\<close>

theorem fetch_handler_keeps_storage: "caches (snd (fetch_handler net q w)) = caches w"
  by (simp add: fetch_handler_def caches_match_def net_fetch_def split: option.splits)

text \<open>
  C9: the fetch handler answers requests of every method; for a request whose method
  is not GET the lookup yields no stored response whatever the storage holds, and the
  request goes to the network.
\<close>

theorem fetch_non_get_forwards:
  assumes "rq_method q \<noteq> ''GET''"
  shows "storage_match q (caches w) = None \<and>
         fetch_handler net q w = (net q, w\<lparr>netlog := netlog w @ [q]\<rparr>)"
proof -
  from assms have "storage_match q (caches w) = None"
    by (simp add: storage_match_none cache_match_not_get)
  then show ?thesis by (simp add: fetch_handler_miss)
qed

theorem fetch_non_get_forwards_witness:
  "fetch_handler net_up \<lparr>rq_url = ''/'', rq_method = ''POST''\<rparr> served_world =
     (Inr \<lparr>rs_status = 200, rs_body = ''/''\<rparr>,
      served_world\<lparr>netlog := [\<lparr>rq_url = ''/'', rq_method = ''POST''\<rparr>]\<rparr>)"
proof -
  have h: "rq_method \<lparr>rq_url = ''/'', rq_method = ''POST''\<rparr> \<noteq> ''GET''"
    by simp
  show ?thesis
    using fetch_non_get_forwards [OF h, of served_world net_up]
    by (simp add: net_up_def served_world_def)
qed

section \<open>The install listener\<close>

text \<open>
  C3: after the install handler has completed successfully, the bucket named
  \<open>CACHE_NAME\<close> exists, and for every URL of \<open>urlsToCache\<close> it holds the response the
  network gave for that URL during install, which is also what a lookup of the URL in
  that bucket returns.
\<close>

theorem install_populates_bucket:
  assumes "install CACHE_NAME net w = (Inr (), w')" and "u \<in> set urlsToCache"
  shows "\<exists>r. net (mk_request u) = Inr r \<and>
             caches_has CACHE_NAME w' \<and>
             (mk_request u, r) \<in> set (bucket_of CACHE_NAME w') \<and>
             cache_match (mk_request u) (bucket_of CACHE_NAME w') = Some r"
proof -
  let ?f = "\<lambda>u. projr (net (mk_request u))"
  let ?b = "filter (\<lambda>(c, old). rq_url c \<notin> set urlsToCache \<or> rq_method c \<noteq> ''GET'')
              (bucket_of CACHE_NAME w) @ map (\<lambda>u. (mk_request u, ?f u)) urlsToCache"
  let ?w2 = "(snd (caches_open CACHE_NAME w))\<lparr>netlog := netlog w @ map mk_request urlsToCache\<rparr>"
  have all: "list_all (\<lambda>u. addable (net (mk_request u))) urlsToCache"
    using assms(1) install_result [of CACHE_NAME net w] by (simp split: if_splits)
  then have w': "w' = set_bucket CACHE_NAME ?b ?w2"
    using assms(1) by (simp add: install_fulfilled)
  have has: "caches_has CACHE_NAME ?w2"
    by (simp add: caches_has_netlog caches_open_has)
  then have bucket: "bucket_of CACHE_NAME w' = ?b"
    unfolding w' by (rule bucket_of_set_bucket)
  from all assms(2) have "addable (net (mk_request u))"
    by (simp add: list_all_iff)
  then have r: "net (mk_request u) = Inr (?f u)"
    by (cases "net (mk_request u)") (simp_all add: addable_def)
  have "cache_match (mk_request u) ?b = Some (?f u)"
    using cache_match_append_miss [OF query_cache_replaced [OF assms(2)]]
      cache_match_fetched [OF assms(2)]
    by simp
  moreover have "(mk_request u, ?f u) \<in> set ?b"
    using assms(2) by auto
  moreover have "caches_has CACHE_NAME w'"
    unfolding w' using has by (simp add: caches_has_set_bucket)
  ultimately show ?thesis
    using r bucket by simp
qed

theorem install_populates_bucket_witness:
  "fst (install CACHE_NAME net_up fresh_world) = Inr () \<and>
   cache_match (mk_request ''/manifest.json'')
     (bucket_of CACHE_NAME (snd (install CACHE_NAME net_up fresh_world))) =
   Some \<lparr>rs_status = 200, rs_body = ''/manifest.json''\<rparr>"
proof -
  have ok: "fst (install CACHE_NAME net_up fresh_world) = Inr ()"
    by (simp add: install_result list_all_iff net_up_def addable_def)
  then have h1: "install CACHE_NAME net_up fresh_world =
              (Inr (), snd (install CACHE_NAME net_up fresh_world))"
    by (simp add: prod_eq_iff)
  have h2: "''/manifest.json'' \<in> set urlsToCache"
    by (simp add: urlsToCache_def)
  show ?thesis
    using ok install_populates_bucket [OF h1 h2] by (auto simp add: net_up_def mk_request_def)
qed

text \<open>
  C4: if the fetch of any one URL of \<open>urlsToCache\<close> fails during install (the network
  rejects, or answers with a status that \<open>addAll\<close> does not accept), the install
  promise rejects, cache storage is what \<open>caches.open\<close> left (no response of the list
  is written, the current bucket holds what it held before), and the lifecycle stops
  there without running the activate handler.
\<close>

theorem install_rejects_atomically:
  assumes "u \<in> set urlsToCache" and "\<not> addable (net (mk_request u))"
  shows "fst (install CACHE_NAME net w) = Inl TypeError \<and>
         caches (snd (install CACHE_NAME net w)) = caches (snd (caches_open CACHE_NAME w)) \<and>
         bucket_of CACHE_NAME (snd (install CACHE_NAME net w)) = bucket_of CACHE_NAME w \<and>
         deploy CACHE_NAME net w = (Inl TypeError, snd (install CACHE_NAME net w))"
proof -
  from assms have "\<not> list_all (\<lambda>u. addable (net (mk_request u))) urlsToCache"
    by (auto simp add: list_all_iff)
  then have "install CACHE_NAME net w =
      (Inl TypeError,
       (snd (caches_open CACHE_NAME w))\<lparr>netlog := netlog w @ map mk_request urlsToCache\<rparr>)"
    by (rule install_rejected)
  then show ?thesis
    by (simp add: deploy_def bucket_of_netlog caches_open_bucket)
qed

theorem install_rejects_atomically_witness:
  "install CACHE_NAME net_no_manifest served_world =
     (Inl TypeError, served_world\<lparr>netlog := map mk_request urlsToCache\<rparr>) \<and>
   deploy CACHE_NAME net_no_manifest served_world =
     (Inl TypeError, served_world\<lparr>netlog := map mk_request urlsToCache\<rparr>)"
proof -
  have h1: "''/manifest.json'' \<in> set urlsToCache"
    by (simp add: urlsToCache_def)
  have h2: "\<not> addable (net_no_manifest (mk_request ''/manifest.json''))"
    by (simp add: addable_def net_no_manifest_def mk_request_def)
  have "install CACHE_NAME net_no_manifest served_world =
     (Inl TypeError, served_world\<lparr>netlog := map mk_request urlsToCache\<rparr>)"
    using h1 h2
    by (subst install_rejected)
       (auto simp add: list_all_iff caches_open_def caches_has_def served_world_def)
  then show ?thesis
    using install_rejects_atomically [of "''/manifest.json''" net_no_manifest served_world,
        OF h1 h2]
    by simp
qed

section \<open>The activate listener\<close>

text \<open>
  C5: after the activate handler has completed, no bucket with a name other than
  \<open>CACHE_NAME\<close> exists; and of the results gathered by \<open>Promise.all\<close>, one per
  enumerated name and in that order, exactly those of the names equal to \<open>CACHE_NAME\<close>
  are \<open>undefined\<close>: for every other name \<open>caches.delete\<close> was called.
\<close>

theorem activate_removes_stale_buckets:
  "(\<forall>n. caches_has n (snd (activate CACHE_NAME w)) \<longrightarrow> n = CACHE_NAME) \<and>
   map (\<lambda>x. x = None) (fst (activate CACHE_NAME w)) =
     map (\<lambda>n. n = CACHE_NAME) (map fst (caches w))"
  by (auto simp add: activate_world activate_results caches_has_def)

theorem activate_removes_stale_buckets_witness:
  "caches_has ''vofo-music-v0'' shadowed_world \<and>
   \<not> caches_has ''vofo-music-v0'' (snd (activate CACHE_NAME shadowed_world)) \<and>
   caches_has CACHE_NAME (snd (activate CACHE_NAME shadowed_world)) \<and>
   map (\<lambda>x. x = None) (fst (activate CACHE_NAME shadowed_world)) = [False, True]"
proof -
  have "caches_has ''vofo-music-v0'' shadowed_world"
    by (simp add: caches_has_def shadowed_world_def)
  moreover have "''vofo-music-v0'' \<noteq> CACHE_NAME"
    by (simp add: CACHE_NAME_def)
  moreover have "caches_has CACHE_NAME (snd (activate CACHE_NAME shadowed_world))"
    by (simp add: activate_world caches_has_def shadowed_world_def)
  moreover have "map (\<lambda>n. n = CACHE_NAME) (map fst (caches shadowed_world)) = [False, True]"
    by (simp add: shadowed_world_def CACHE_NAME_def)
  ultimately show ?thesis
    using activate_removes_stale_buckets [of shadowed_world] by auto
qed

text \<open>
  C6: the activate handler leaves the bucket named \<open>CACHE_NAME\<close> unchanged: for
  every world, the buckets carrying the label, the contents found under the label and
  whether the label names a bucket at all are the same after activate as before.
\<close>

theorem activate_keeps_current_bucket:
  "current_buckets CACHE_NAME (snd (activate CACHE_NAME w)) = current_buckets CACHE_NAME w \<and>
   bucket_of CACHE_NAME (snd (activate CACHE_NAME w)) = bucket_of CACHE_NAME w \<and>
   caches_has CACHE_NAME (snd (activate CACHE_NAME w)) = caches_has CACHE_NAME w"
proof -
  have "map_of (caches (snd (activate CACHE_NAME w))) CACHE_NAME = map_of (caches w) CACHE_NAME"
    by (simp add: activate_world map_of_keep_label)
  moreover have "filter (\<lambda>m. m = CACHE_NAME) (filter (\<lambda>m. m = CACHE_NAME) ns) =
                 filter (\<lambda>m. m = CACHE_NAME) ns" for ns :: "string list"
    by simp
  ultimately show ?thesis
    by (auto simp add: activate_world current_buckets_def bucket_of_def caches_has_def)
qed

text \<open>
  C10: the activate handler is idempotent: for every world, running it a second time
  leaves the world (the buckets and their contents) as the first run left it.
\<close>

theorem activate_idempotent:
  "snd (activate CACHE_NAME (snd (activate CACHE_NAME w))) = snd (activate CACHE_NAME w)"
  by (simp add: activate_world)

section \<open>Deploying a new version label\<close>

text \<open>
  C7, as stated, ends: at every quiescent point exactly one bucket is current,
  identified by the hardcoded version label. Until install has run under a label no
  bucket carries it: once the label is changed to \<open>vofo-music-v2\<close>, \<open>served_world\<close>
  holds no current bucket; and activate on an empty storage leaves none either.
\<close>

theorem no_current_bucket_before_install:
  "\<not> caches_has ''vofo-music-v2'' served_world \<and>
   length (current_buckets ''vofo-music-v2'' served_world) = 0 \<and>
   length (current_buckets CACHE_NAME (snd (activate CACHE_NAME fresh_world))) = 0"
  by (simp add: platform_defs example_defs current_buckets_def)

text \<open>
  C7, amended: for every world, when the version label is changed to a name \<open>cn\<close>
  that no existing bucket carries and install is run followed by activate, exactly one
  bucket is left, named \<open>cn\<close>, and every bucket that existed before is gone. Before
  that install no bucket is current; from its completion on exactly one bucket is
  current at every quiescent point, whichever listeners run afterwards.
\<close>

theorem redeploy_leaves_one_bucket:
  assumes "\<not> caches_has cn w"
  shows "map fst (caches (snd (activate cn (snd (install cn net w))))) = [cn] \<and>
         (\<forall>n \<in> set (map fst (caches w)).
            \<not> caches_has n (snd (activate cn (snd (install cn net w))))) \<and>
         length (current_buckets cn w) = 0 \<and>
         (\<forall>es. length (current_buckets cn (run_events cn es (snd (install cn net w)))) = 1)"
proof -
  let ?w1 = "snd (install cn net w)"
  let ?w2 = "snd (activate cn ?w1)"
  from assms have fresh: "cn \<notin> set (map fst (caches w))"
    by (simp add: caches_has_def)
  have k1: "map fst (caches ?w1) = map fst (caches w) @ [cn]"
    using assms by (simp add: install_keys caches_open_def)
  have k2: "map fst (caches ?w2) = [cn]"
    using fresh by (simp add: activate_world keys_keep_label k1 filter_fresh del: map_map)
  have "length (current_buckets cn w) = 0"
    using assms by (simp add: current_buckets_fresh)
  moreover have "length (current_buckets cn ?w1) = 1"
    using assms by (simp add: current_buckets_install)
  then have "\<forall>es. length (current_buckets cn (run_events cn es ?w1)) = 1"
    by (simp add: run_keeps_one)
  moreover have "\<forall>n \<in> set (map fst (caches w)). \<not> caches_has n ?w2"
    unfolding caches_has_def k2 using fresh by auto
  ultimately show ?thesis using k2 by (intro conjI)
qed

theorem redeploy_leaves_one_bucket_witness:
  "caches_has CACHE_NAME served_world \<and>
   map fst (caches (snd (activate ''vofo-music-v2''
      (snd (install ''vofo-music-v2'' net_up served_world))))) = [''vofo-music-v2''] \<and>
   \<not> caches_has CACHE_NAME (snd (activate ''vofo-music-v2''
      (snd (install ''vofo-music-v2'' net_up served_world)))) \<and>
   length (current_buckets ''vofo-music-v2''
     (run_events ''vofo-music-v2'' [ActivateEvent, FetchEvent net_down (mk_request ''/''), ActivateEvent]
        (snd (install ''vofo-music-v2'' net_up served_world)))) = 1"
proof -
  let ?w2 = "snd (activate ''vofo-music-v2'' (snd (install ''vofo-music-v2'' net_up served_world)))"
  have h: "\<not> caches_has ''vofo-music-v2'' served_world"
    by (simp add: caches_has_def served_world_def CACHE_NAME_def)
  have old: "caches_has CACHE_NAME served_world"
    by (simp add: caches_has_def served_world_def)
  then have mem: "CACHE_NAME \<in> set (map fst (caches served_world))"
    by (simp only: caches_has_def)
  note redeployed = redeploy_leaves_one_bucket [OF h, of net_up]
  from redeployed have keys: "map fst (caches ?w2) = [''vofo-music-v2'']"
    by (elim conjE)
  from redeployed have gone: "\<forall>n \<in> set (map fst (caches served_world)). \<not> caches_has n ?w2"
    by (elim conjE)
  from redeployed have inv: "\<forall>es. length (current_buckets ''vofo-music-v2''
      (run_events ''vofo-music-v2'' es (snd (install ''vofo-music-v2'' net_up served_world)))) = 1"
    by (elim conjE)
  from gone mem have "\<not> caches_has CACHE_NAME ?w2" by (rule bspec)
  moreover from inv have "length (current_buckets ''vofo-music-v2''
     (run_events ''vofo-music-v2'' [ActivateEvent, FetchEvent net_down (mk_request ''/''), ActivateEvent]
        (snd (install ''vofo-music-v2'' net_up served_world)))) = 1"
    by (rule spec)
  ultimately show ?thesis using old keys by (intro conjI)
qed

end
